theory Spec2Isabelle
  imports Main "HOL-Library.Sublist"
begin

section \<open>The reports screen: data model\<close>

text \<open>
  The component \<^verbatim>\<open>ReportsTab\<close> (src/unnamed/part_000) keeps five pieces of React state,
  filters the approved registrations by a date range and derives the figures of the
  dashboard from the filtered rows. The embedding follows the component line by line.

  JavaScript values are modelled as follows.
  \<^item> A column that may be \<^verbatim>\<open>undefined\<close>, \<^verbatim>\<open>null\<close> or a value is a \<open>nullable\<close>. The three
    are different values for a \<^verbatim>\<open>Set\<close> (SameValueZero), and the first two are falsy.
  \<^item> A \<^verbatim>\<open>Date\<close> object is its time value: \<open>Time t\<close> with \<open>t\<close> milliseconds since the
    epoch, or \<open>Invalid\<close> (time value NaN). Every comparison with NaN is false.
  \<^item> Amounts are integers: the model covers fees in whole currency units whose sums stay
    below \<open>2 ^ 53\<close>, where the addition of JavaScript numbers is exact.
\<close>

datatype 'a nullable = Undefined | Null | Val 'a

datatype jsdate = Invalid | Time int

text \<open>
  \<^verbatim>\<open>interface Registration\<close>, lines 16-39, without the two joined objects
  (\<^verbatim>\<open>categories\<close>, \<^verbatim>\<open>panchayaths\<close>), which only the table cells read. The field
  \<open>approved_at\<close> holds the column as line 110 reads it: \<open>None\<close> when the column is falsy
  (\<^verbatim>\<open>null\<close>, \<^verbatim>\<open>undefined\<close> or the empty string), otherwise \<open>Some d\<close> with \<open>d\<close> the
  \<^verbatim>\<open>Date\<close> that \<^verbatim>\<open>new Date(registration.approved_at)\<close> builds from the string
  (\<open>Invalid\<close> when the string is not a date).
\<close>

record registration =
  id :: string
  customer_id :: string
  name :: string
  mobile_number :: string
  address :: string
  ward :: string
  agent_pro :: string
  status :: string
  fee_paid :: "int nullable"
  created_at :: string
  approved_at :: "jsdate option"
  approved_by :: string
  expires_at :: string
  category_id :: "string nullable"
  panchayath_id :: "string nullable"

text \<open>The component's state (\<^verbatim>\<open>useState\<close>, lines 43-48).\<close>

record state =
  fromDate :: "jsdate option"
  toDate :: "jsdate option"
  registrations :: "registration list"
  pendingRegistrations :: "registration list"
  loading :: bool

text \<open>
  What the component takes from its runtime: the offset of local time from UTC in
  milliseconds (a zone with a fixed offset, such as IST, \<open>19800000\<close>), and the major
  version of the date-fns package, which is not among the sources. Of the functions
  modelled here only \<^verbatim>\<open>isWithinInterval\<close> differs between the versions: \<open>V2\<close> (2.x)
  throws on an interval whose start is not at or before its end, \<open>V3\<close> (3.x and 4.x)
  puts the two ends in order first. The sources do not fix the version, so every
  result says under which version it holds; the example runtime \<open>ist\<close> has version 3,
  \<open>ist_v2\<close> version 2.
\<close>

datatype datefns_version = V2 | V3

record env =
  tz :: int
  datefns :: datefns_version

datatype error = RangeError string

section \<open>Dates\<close>

definition msPerDay :: int where
  "msPerDay = 86400000"

text \<open>\<^verbatim>\<open>TimeClip\<close> of ECMAScript: a time value beyond 8.64e15 ms is NaN.\<close>

definition TimeClip :: "int \<Rightarrow> jsdate" where
  "TimeClip t = (if \<bar>t\<bar> > 8640000000000000 then Invalid else Time t)"

text \<open>
  date-fns \<^verbatim>\<open>startOfDay\<close>: a copy of the date with \<^verbatim>\<open>setHours(0, 0, 0, 0)\<close>, that is
  midnight of the local day; \<^verbatim>\<open>endOfDay\<close>: \<^verbatim>\<open>setHours(23, 59, 59, 999)\<close>.
\<close>

fun startOfDay :: "int \<Rightarrow> jsdate \<Rightarrow> jsdate" where
  "startOfDay z Invalid = Invalid"
| "startOfDay z (Time t) = TimeClip (((t + z) div msPerDay) * msPerDay - z)"

fun endOfDay :: "int \<Rightarrow> jsdate \<Rightarrow> jsdate" where
  "endOfDay z Invalid = Invalid"
| "endOfDay z (Time t) = TimeClip (((t + z) div msPerDay) * msPerDay + 86399999 - z)"

text \<open>\<^verbatim>\<open>a <= b\<close> on two dates: the comparison of their time values, false with a NaN.\<close>

fun js_le :: "jsdate \<Rightarrow> jsdate \<Rightarrow> bool" where
  "js_le (Time a) (Time b) = (a \<le> b)"
| "js_le _ _ = False"

text \<open>\<^verbatim>\<open>a >= b\<close>.\<close>

definition js_ge :: "jsdate \<Rightarrow> jsdate \<Rightarrow> bool" where
  "js_ge a b = js_le b a"

text \<open>
  \<^verbatim>\<open>[start, end].sort((a, b) => a - b)\<close> of date-fns 3: the two ends are swapped when
  \<^verbatim>\<open>start - end\<close> is positive; a comparator result of NaN counts as 0 and leaves them.
\<close>

fun sort_ends :: "jsdate \<Rightarrow> jsdate \<Rightarrow> jsdate \<times> jsdate" where
  "sort_ends (Time a) (Time b) = (if a - b > 0 then (Time b, Time a) else (Time a, Time b))"
| "sort_ends s e = (s, e)"

text \<open>
  \<^verbatim>\<open>isWithinInterval(date, { start, end })\<close>.
  date-fns 2: \<^verbatim>\<open>if (!(startTime <= endTime)) throw new RangeError('Invalid interval')\<close>,
  then \<^verbatim>\<open>time >= startTime && time <= endTime\<close>.
  date-fns 3: the ends sorted, then the same comparison.
\<close>

fun isWithinInterval :: "datefns_version \<Rightarrow> jsdate \<Rightarrow> jsdate \<Rightarrow> jsdate \<Rightarrow> error + bool" where
  "isWithinInterval V2 d s e =
     (if \<not> js_le s e then Inl (RangeError ''Invalid interval'')
      else Inr (js_ge d s \<and> js_le d e))"
| "isWithinInterval V3 d s e =
     (case sort_ends s e of (startTime, endTime) \<Rightarrow> Inr (js_ge d startTime \<and> js_le d endTime))"

section \<open>Filtering (lines 106-125)\<close>

text \<open>
  The arrow function given to \<^verbatim>\<open>registrations.filter\<close>. A \<^verbatim>\<open>Date\<close> object is truthy
  whatever its time value, so \<^verbatim>\<open>!fromDate\<close> asks whether the bound is unset, and
  \<^verbatim>\<open>!registrationDate\<close> whether \<^verbatim>\<open>approved_at\<close> was falsy.
\<close>

definition inDateRange :: "env \<Rightarrow> jsdate option \<Rightarrow> jsdate option \<Rightarrow> registration \<Rightarrow> error + bool" where
  "inDateRange e fromD toD registration =
     (if fromD = None \<and> toD = None then Inr True
      else case approved_at registration of
        None \<Rightarrow> Inr False
      | Some registrationDate \<Rightarrow>
          (let fromDateTime = map_option (startOfDay (tz e)) fromD;
               toDateTime = map_option (endOfDay (tz e)) toD
           in case (fromDateTime, toDateTime) of
                (Some f, Some t) \<Rightarrow> isWithinInterval (datefns e) registrationDate f t
              | (Some f, None) \<Rightarrow> Inr (js_ge registrationDate f)
              | (None, Some t) \<Rightarrow> Inr (js_le registrationDate t)
              | (None, None) \<Rightarrow> Inr False))"

text \<open>
  \<^verbatim>\<open>Array.prototype.filter\<close> with a callback that may throw: the elements are visited in
  order, the kept ones are collected in order, and the first exception ends the call.
\<close>

fun array_filter :: "('a \<Rightarrow> error + bool) \<Rightarrow> 'a list \<Rightarrow> error + 'a list" where
  "array_filter p [] = Inr []"
| "array_filter p (x # xs) =
     (case p x of
        Inl err \<Rightarrow> Inl err
      | Inr keep \<Rightarrow>
          (case array_filter p xs of
             Inl err \<Rightarrow> Inl err
           | Inr ys \<Rightarrow> Inr (if keep then x # ys else ys)))"

definition filteredRegistrations ::
  "env \<Rightarrow> jsdate option \<Rightarrow> jsdate option \<Rightarrow> registration list \<Rightarrow> error + registration list" where
  "filteredRegistrations e fromD toD regs = array_filter (inDateRange e fromD toD) regs"

section \<open>Aggregates (lines 128-132)\<close>

text \<open>
  \<^verbatim>\<open>reg.fee_paid || 0\<close>: the fee, or 0 when it is falsy (\<^verbatim>\<open>undefined\<close>, \<^verbatim>\<open>null\<close>, 0).
\<close>

fun fee_or_0 :: "int nullable \<Rightarrow> int" where
  "fee_or_0 (Val n) = (if n = 0 then 0 else n)"
| "fee_or_0 _ = 0"

text \<open>\<^verbatim>\<open>Boolean\<close> on an identifier: false for \<^verbatim>\<open>undefined\<close>, \<^verbatim>\<open>null\<close> and \<^verbatim>\<open>""\<close>.\<close>

fun Boolean :: "string nullable \<Rightarrow> bool" where
  "Boolean (Val s) = (s \<noteq> [])"
| "Boolean _ = False"

text \<open>
  \<^verbatim>\<open>[...new Set(xs)]\<close>: the values of \<open>xs\<close> in the order of their first occurrence,
  each once.
\<close>

definition Set_add :: "'a list \<Rightarrow> 'a \<Rightarrow> 'a list" where
  "Set_add seen x = (if x \<in> set seen then seen else seen @ [x])"

definition new_Set :: "'a list \<Rightarrow> 'a list" where
  "new_Set xs = foldl Set_add [] xs"

definition totalRegistrations :: "registration list \<Rightarrow> nat" where
  "totalRegistrations filtered = length filtered"

definition totalFeesCollected :: "registration list \<Rightarrow> int" where
  "totalFeesCollected filtered = foldl (\<lambda>sum reg. sum + fee_or_0 (fee_paid reg)) 0 filtered"

definition totalCategories :: "registration list \<Rightarrow> nat" where
  "totalCategories filtered = length (new_Set (map category_id filtered))"

definition totalPanchayaths :: "registration list \<Rightarrow> nat" where
  "totalPanchayaths filtered = length (filter Boolean (new_Set (map panchayath_id filtered)))"

definition pendingAmount :: "registration list \<Rightarrow> int" where
  "pendingAmount pending = foldl (\<lambda>sum reg. sum + fee_or_0 (fee_paid reg)) 0 pending"

text \<open>The grade shown in the Performance card (lines 305-307).\<close>

definition performance :: "nat \<Rightarrow> string" where
  "performance n = (if n > 50 then ''Excellent'' else if n > 20 then ''Good'' else ''Fair'')"

section \<open>The component\<close>

text \<open>The figures one render computes.\<close>

record metrics =
  m_rows :: "registration list"
  m_totalRegistrations :: nat
  m_totalFeesCollected :: int
  m_totalCategories :: nat
  m_totalPanchayaths :: nat
  m_pendingAmount :: int

text \<open>
  Lines 106-132 of the body of \<^verbatim>\<open>ReportsTab\<close>, which every render runs before anything
  is drawn: the filter, then the five aggregates. An exception of the filter ends the
  computation. The second component of the result is the state afterwards: no statement
  of these lines assigns to the state or calls a setter, \<^verbatim>\<open>filter\<close>, \<^verbatim>\<open>map\<close>,
  \<^verbatim>\<open>reduce\<close> and the spread build new arrays, and \<^verbatim>\<open>startOfDay\<close> and \<^verbatim>\<open>endOfDay\<close> work
  on a copy of their argument. The JSX that follows (spinner, cards, table) is not
  modelled, apart from the grade \<open>performance\<close> above, which the Performance card
  computes from \<^verbatim>\<open>totalRegistrations\<close>.
\<close>

definition ReportsTab_metrics :: "env \<Rightarrow> state \<Rightarrow> (error + metrics) \<times> state" where
  "ReportsTab_metrics e s =
     (case filteredRegistrations e (fromDate s) (toDate s) (registrations s) of
        Inl err \<Rightarrow> (Inl err, s)
      | Inr filtered \<Rightarrow>
          (Inr \<lparr> m_rows = filtered,
                 m_totalRegistrations = totalRegistrations filtered,
                 m_totalFeesCollected = totalFeesCollected filtered,
                 m_totalCategories = totalCategories filtered,
                 m_totalPanchayaths = totalPanchayaths filtered,
                 m_pendingAmount = pendingAmount (pendingRegistrations s) \<rparr>, s))"

section \<open>Event handlers (lines 134-149)\<close>

text \<open>What a handler does besides changing the state.\<close>

datatype effect =
  ConsoleLog string "registration list"
| ToastSuccess string
| ToastError string

definition setFromDate :: "jsdate option \<Rightarrow> state \<Rightarrow> state" where
  "setFromDate d s = s\<lparr>fromDate := d\<rparr>"

definition setToDate :: "jsdate option \<Rightarrow> state \<Rightarrow> state" where
  "setToDate d s = s\<lparr>toDate := d\<rparr>"

definition handleClear :: "state \<Rightarrow> state" where
  "handleClear s = setToDate None (setFromDate None s)"

text \<open>
  The export handlers close over the \<^verbatim>\<open>filteredRegistrations\<close> of the render that
  created them; they log it and show a toast.
\<close>

definition handleExportExcel :: "registration list \<Rightarrow> state \<Rightarrow> state \<times> effect list" where
  "handleExportExcel filtered s =
     (s, [ConsoleLog ''Exporting to Excel...'' filtered,
          ToastSuccess ''Export Excel functionality to be implemented''])"

definition handleExportPDF :: "registration list \<Rightarrow> state \<Rightarrow> state \<times> effect list" where
  "handleExportPDF filtered s =
     (s, [ConsoleLog ''Exporting to PDF...'' filtered,
          ToastSuccess ''Export PDF functionality to be implemented''])"

section \<open>The filtering rule in words, and example data\<close>

text \<open>
  The rule of the specification for a registration approved at \<open>a\<close>: no bound, every
  row; only \<open>from\<close>, the rows approved at or after the start of that day; only \<open>to\<close>, the
  rows approved at or before the end of that day; both, the rows approved in the closed
  interval between the two.
\<close>

fun spec_four_branch_rule :: "int \<Rightarrow> jsdate option \<Rightarrow> jsdate option \<Rightarrow> jsdate \<Rightarrow> bool" where
  "spec_four_branch_rule z None None a = True"
| "spec_four_branch_rule z (Some f) None a = js_le (startOfDay z f) a"
| "spec_four_branch_rule z None (Some t) a = js_le a (endOfDay z t)"
| "spec_four_branch_rule z (Some f) (Some t) a = (js_le (startOfDay z f) a \<and> js_le a (endOfDay z t))"

text \<open>
  The two bounds are in order when, both being set, the start of the \<open>from\<close> day is at or
  before the end of the \<open>to\<close> day (the \<open>from\<close> day is not after the \<open>to\<close> day).
\<close>

fun bounds_ordered :: "int \<Rightarrow> jsdate option \<Rightarrow> jsdate option \<Rightarrow> bool" where
  "bounds_ordered z (Some f) (Some t) = js_le (startOfDay z f) (endOfDay z t)"
| "bounds_ordered z _ _ = True"

text \<open>
  The filter returns for every approved set when the installed \<^verbatim>\<open>isWithinInterval\<close> takes
  any interval (date-fns 3 and later), or when the bounds are in order.
\<close>

definition interval_accepted :: "env \<Rightarrow> jsdate option \<Rightarrow> jsdate option \<Rightarrow> bool" where
  "interval_accepted e fromD toD = (datefns e = V3 \<or> bounds_ordered (tz e) fromD toD)"

text \<open>A fee as the specification reads it: a missing fee is 0.\<close>

fun spec_fee :: "int nullable \<Rightarrow> int" where
  "spec_fee (Val n) = n"
| "spec_fee _ = 0"

text \<open>
  Example data. The runtime is a browser in India (UTC+5:30) with date-fns 3; \<open>ist_v2\<close>
  is the same with date-fns 2. Days of January 2024 are given by their UTC midnight:
  1 January is 1704067200000.
\<close>

definition ist :: env where
  "ist = \<lparr> tz = 19800000, datefns = V3 \<rparr>"

definition ist_v2 :: env where
  "ist_v2 = \<lparr> tz = 19800000, datefns = V2 \<rparr>"

definition jan :: "int \<Rightarrow> jsdate" where
  "jan d = Time (1704067200000 + (d - 1) * 86400000)"

definition row :: "string \<Rightarrow> int nullable \<Rightarrow> jsdate option \<Rightarrow> string nullable \<Rightarrow> string nullable \<Rightarrow> registration" where
  "row i fee approved cat pan =
     \<lparr> id = i, customer_id = ''C-'' @ i, name = ''name'', mobile_number = ''9000000000'',
       address = ''address'', ward = ''1'', agent_pro = ''agent'', status = ''approved'',
       fee_paid = fee, created_at = ''2023-12-31T00:00:00Z'', approved_at = approved,
       approved_by = ''admin'', expires_at = ''2025-01-01T00:00:00Z'',
       category_id = cat, panchayath_id = pan \<rparr>"

definition screen_state :: "jsdate option \<Rightarrow> jsdate option \<Rightarrow> registration list \<Rightarrow> registration list \<Rightarrow> state" where
  "screen_state f t approved pending =
     \<lparr> fromDate = f, toDate = t, registrations = approved, pendingRegistrations = pending,
       loading = False \<rparr>"

text \<open>
  The order in which the loader delivers the approved rows (\<^verbatim>\<open>order('approved_at',
  { ascending: false })\<close>, line 66): a row is approved no earlier than the rows after it.
\<close>

definition approved_desc :: "registration \<Rightarrow> registration \<Rightarrow> bool" where
  "approved_desc r1 r2 =
     (case (approved_at r1, approved_at r2) of
        (Some d1, Some d2) \<Rightarrow> js_ge d1 d2
      | _ \<Rightarrow> False)"

section \<open>Properties of the filter\<close>

text \<open>What \<^verbatim>\<open>filter\<close> returns when it returns, and when it does.\<close>

lemma array_filter_Inr:
  "array_filter p xs = Inr ys \<Longrightarrow> ys = filter (\<lambda>x. p x = Inr True) xs"
  by (induction xs arbitrary: ys) (auto split: sum.splits if_splits)

lemma array_filter_returns:
  assumes "\<And>x. x \<in> set xs \<Longrightarrow> \<exists>b. p x = Inr b"
  shows "array_filter p xs = Inr (filter (\<lambda>x. p x = Inr True) xs)"
  using assms
proof (induction xs)
  case Nil
  show ?case by simp
next
  case (Cons x xs)
  from Cons.prems obtain b where b: "p x = Inr b" by auto
  have "array_filter p xs = Inr (filter (\<lambda>x. p x = Inr True) xs)"
    using Cons by simp
  with b show ?case by simp
qed

lemma isWithinInterval_ordered:
  "js_le s e \<Longrightarrow> isWithinInterval v d s e = Inr (js_le s d \<and> js_le d e)"
  by (cases v; cases s; cases e) (auto simp: js_ge_def)

lemma isWithinInterval_V3_reversed:
  "b < a \<Longrightarrow> isWithinInterval V3 (Time d) (Time a) (Time b) = Inr (b \<le> d \<and> d \<le> a)"
  by (simp add: js_ge_def)

lemma inDateRange_returns:
  assumes "interval_accepted e f t"
  shows "\<exists>b. inDateRange e f t r = Inr b"
proof (cases "datefns e")
  case V2
  with assms have "bounds_ordered (tz e) f t" by (simp add: interval_accepted_def)
  then show ?thesis
    by (cases f; cases t)
       (auto simp: inDateRange_def isWithinInterval_ordered split: option.splits)
next
  case V3
  then show ?thesis
    by (cases f; cases t)
       (auto simp: inDateRange_def split: option.splits prod.splits)
qed

lemma filteredRegistrations_returns:
  "interval_accepted e f t \<Longrightarrow>
     filteredRegistrations e f t regs = Inr (filter (\<lambda>r. inDateRange e f t r = Inr True) regs)"
  unfolding filteredRegistrations_def
  by (rule array_filter_returns) (rule inDateRange_returns)

lemma filteredRegistrations_Inr:
  "filteredRegistrations e f t regs = Inr ys \<Longrightarrow>
     ys = filter (\<lambda>r. inDateRange e f t r = Inr True) regs"
  unfolding filteredRegistrations_def by (rule array_filter_Inr)

lemma interval_accepted_ordered: "bounds_ordered (tz e) f t \<Longrightarrow> interval_accepted e f t"
  by (simp add: interval_accepted_def)

lemma inDateRange_rule:
  "approved_at r = Some d \<Longrightarrow> bounds_ordered (tz e) f t \<Longrightarrow>
     inDateRange e f t r = Inr (spec_four_branch_rule (tz e) f t d)"
  by (cases f; cases t) (auto simp: inDateRange_def isWithinInterval_ordered js_ge_def)

lemma inDateRange_no_approved_at:
  "approved_at r = None \<Longrightarrow> inDateRange e f t r = Inr (f = None \<and> t = None)"
  by (simp add: inDateRange_def)

lemma filteredRegistrations_unset: "filteredRegistrations e None None regs = Inr regs"
proof -
  have "interval_accepted e None None" by (simp add: interval_accepted_def)
  then have "filteredRegistrations e None None regs
      = Inr (filter (\<lambda>r. inDateRange e None None r = Inr True) regs)"
    by (rule filteredRegistrations_returns)
  then show ?thesis by (simp add: inDateRange_def)
qed

lemma sorted_wrt_filter_keeps: "sorted_wrt R xs \<Longrightarrow> sorted_wrt R (filter P xs)"
  by (induction xs) auto





section \<open>Properties of the aggregates and of the render\<close>

lemma foldl_fee: "foldl (\<lambda>sum reg. sum + f reg) a xs = a + sum_list (map f xs)" for a :: int
  by (induction xs arbitrary: a) auto

lemma fee_or_0_eq: "fee_or_0 v = spec_fee v"
  by (cases v) auto

lemma set_foldl_Set_add: "set (foldl Set_add acc xs) = set acc \<union> set xs"
  by (induction xs arbitrary: acc) (auto simp: Set_add_def)

lemma distinct_foldl_Set_add: "distinct acc \<Longrightarrow> distinct (foldl Set_add acc xs)"
  by (induction xs arbitrary: acc) (auto simp: Set_add_def)

lemma set_new_Set: "set (new_Set xs) = set xs"
  by (simp add: new_Set_def set_foldl_Set_add)

lemma distinct_new_Set: "distinct (new_Set xs)"
  by (simp add: new_Set_def distinct_foldl_Set_add)

lemma length_new_Set: "length (new_Set xs) = card (set xs)"
  using distinct_card [OF distinct_new_Set, of xs] by (simp add: set_new_Set)

lemma length_filter_new_Set: "length (filter P (new_Set xs)) = card {x \<in> set xs. P x}"
proof -
  have "distinct (filter P (new_Set xs))" by (simp add: distinct_new_Set)
  then have "card (set (filter P (new_Set xs))) = length (filter P (new_Set xs))"
    by (rule distinct_card)
  then show ?thesis by (simp add: set_new_Set)
qed

lemma ReportsTab_metrics_Inr:
  assumes "ReportsTab_metrics e s = (Inr m, s')"
  shows "\<exists>ys. filteredRegistrations e (fromDate s) (toDate s) (registrations s) = Inr ys
           \<and> m_rows m = ys \<and> m_totalRegistrations m = length ys
           \<and> m_totalFeesCollected m = totalFeesCollected ys
           \<and> m_totalCategories m = totalCategories ys
           \<and> m_totalPanchayaths m = totalPanchayaths ys
           \<and> m_pendingAmount m = pendingAmount (pendingRegistrations s)
           \<and> s' = s"
  using assms
  by (auto simp: ReportsTab_metrics_def totalRegistrations_def split: sum.splits)

lemma ReportsTab_metrics_returns:
  assumes "interval_accepted e (fromDate s) (toDate s)"
  shows "\<exists>m. ReportsTab_metrics e s = (Inr m, s)"
  using filteredRegistrations_returns [OF assms, of "registrations s"]
  by (simp add: ReportsTab_metrics_def)


section \<open>The claims\<close>

text \<open>
  C1 (as amended). For a registration approved at a timestamp \<open>a\<close> and bounds that are
  in order (both set only with start-of-day(from) at or before end-of-day(to)), the
  filter returns and includes the registration exactly per the four-branch rule: no
  bound, included; only \<open>from\<close>, included iff \<open>a \<ge> start-of-day(from)\<close>; only \<open>to\<close>,
  included iff \<open>a \<le> end-of-day(to)\<close>; both, included iff \<open>a\<close> lies in the closed interval.
  In particular a registration approved exactly at start-of-day(from) or at
  end-of-day(to) is included. Both versions of date-fns behave so.
\<close>

theorem filter_follows_rule_when_ordered:
  assumes "approved_at r = Some (Time a)" and "bounds_ordered (tz e) f t"
  shows "\<exists>ys. filteredRegistrations e f t regs = Inr ys
           \<and> (r \<in> set ys \<longleftrightarrow> r \<in> set regs \<and> spec_four_branch_rule (tz e) f t (Time a))
           \<and> (r \<in> set regs \<and> f = Some f0 \<and> startOfDay (tz e) f0 = Time a \<longrightarrow> r \<in> set ys)
           \<and> (r \<in> set regs \<and> t = Some t0 \<and> endOfDay (tz e) t0 = Time a \<longrightarrow> r \<in> set ys)"
proof -
  let ?ys = "filter (\<lambda>r. inDateRange e f t r = Inr True) regs"
  have ret: "filteredRegistrations e f t regs = Inr ?ys"
    using assms(2) by (simp add: filteredRegistrations_returns interval_accepted_ordered)
  have mem: "r \<in> set ?ys \<longleftrightarrow> r \<in> set regs \<and> spec_four_branch_rule (tz e) f t (Time a)"
    using inDateRange_rule [OF assms] by simp
  have lo: "spec_four_branch_rule (tz e) f t (Time a)"
    if "f = Some f0" "startOfDay (tz e) f0 = Time a"
    using that assms(2) by (cases t) auto
  have hi: "spec_four_branch_rule (tz e) f t (Time a)"
    if "t = Some t0" "endOfDay (tz e) t0 = Time a"
    using that assms(2) by (cases f) auto
  show ?thesis using ret mem lo hi by auto
qed

text \<open>
  Witness for C1: with \<open>from\<close> = 1 January and \<open>to\<close> = 10 January 2024 in IST, a row
  approved exactly at the start of 1 January (31 December, 18:30 UTC) is kept, and so is
  a row approved exactly at the end of 10 January (10 January, 18:29:59.999 UTC).
\<close>

theorem filter_follows_rule_witness:
  "approved_at (row ''a'' (Val 100) (Some (Time 1704047400000)) (Val ''c'') (Val ''p''))
     = Some (Time 1704047400000)
   \<and> approved_at (row ''b'' (Val 200) (Some (Time 1704911399999)) (Val ''c'') (Val ''p''))
     = Some (Time 1704911399999)
   \<and> bounds_ordered (tz ist) (Some (jan 1)) (Some (jan 10))
   \<and> startOfDay (tz ist) (jan 1) = Time 1704047400000
   \<and> endOfDay (tz ist) (jan 10) = Time 1704911399999
   \<and> (\<exists>ys. filteredRegistrations ist (Some (jan 1)) (Some (jan 10))
              [row ''a'' (Val 100) (Some (Time 1704047400000)) (Val ''c'') (Val ''p''),
               row ''b'' (Val 200) (Some (Time 1704911399999)) (Val ''c'') (Val ''p'')] = Inr ys
          \<and> row ''a'' (Val 100) (Some (Time 1704047400000)) (Val ''c'') (Val ''p'') \<in> set ys
          \<and> row ''b'' (Val 200) (Some (Time 1704911399999)) (Val ''c'') (Val ''p'') \<in> set ys)"
proof -
  let ?a = "row ''a'' (Val 100) (Some (Time 1704047400000)) (Val ''c'') (Val ''p'')"
  let ?b = "row ''b'' (Val 200) (Some (Time 1704911399999)) (Val ''c'') (Val ''p'')"
  have a: "approved_at ?a = Some (Time 1704047400000)"
    by (simp add: row_def)
  have b: "approved_at ?b = Some (Time 1704911399999)"
    by (simp add: row_def)
  have h2: "bounds_ordered (tz ist) (Some (jan 1)) (Some (jan 10))"
    by (simp add: ist_def jan_def msPerDay_def TimeClip_def)
  have lo: "startOfDay (tz ist) (jan 1) = Time 1704047400000"
    by (simp add: ist_def jan_def msPerDay_def TimeClip_def)
  have hi: "endOfDay (tz ist) (jan 10) = Time 1704911399999"
    by (simp add: ist_def jan_def msPerDay_def TimeClip_def)
  obtain ys where ys: "filteredRegistrations ist (Some (jan 1)) (Some (jan 10)) [?a, ?b] = Inr ys"
    and "?a \<in> set ys"
    using filter_follows_rule_when_ordered [OF a h2, of "[?a, ?b]" "jan 1" "jan 10"] lo
    by auto
  moreover have "?b \<in> set ys"
    using filter_follows_rule_when_ordered [OF b h2, of "[?a, ?b]" "jan 1" "jan 10"] hi ys
    by auto
  ultimately show ?thesis using a b h2 lo hi by blast
qed

text \<open>
  Counterexample to C1 as stated: \<open>from\<close> = 10 January, \<open>to\<close> = 5 January, one row
  approved on 7 January. The rule excludes the row (the interval from the start of the
  10th to the end of the 5th is empty). With date-fns 3 the filter keeps it, because
  \<^verbatim>\<open>isWithinInterval\<close> puts the two ends in order; with date-fns 2 the filter throws.
\<close>

theorem reversed_bounds_counterexample:
  "filteredRegistrations ist (Some (jan 10)) (Some (jan 5))
       [row ''a'' (Val 100) (Some (jan 7)) (Val ''c'') (Val ''p'')]
     = Inr [row ''a'' (Val 100) (Some (jan 7)) (Val ''c'') (Val ''p'')]
   \<and> \<not> spec_four_branch_rule (tz ist) (Some (jan 10)) (Some (jan 5)) (jan 7)
   \<and> filteredRegistrations ist_v2 (Some (jan 10)) (Some (jan 5))
       [row ''a'' (Val 100) (Some (jan 7)) (Val ''c'') (Val ''p'')]
     = Inl (RangeError ''Invalid interval'')"
  by (simp add: filteredRegistrations_def inDateRange_def ist_def ist_v2_def jan_def row_def
        msPerDay_def TimeClip_def js_ge_def)




text \<open>
  C3. \<^verbatim>\<open>totalCategories\<close> is the number of distinct \<^verbatim>\<open>category_id\<close> values of the
  filtered rows, falsy ones counted like any other; \<^verbatim>\<open>totalPanchayaths\<close> is the number
  of distinct truthy \<^verbatim>\<open>panchayath_id\<close> values. So a row with a category id not seen so
  far, empty or not, adds one to \<^verbatim>\<open>totalCategories\<close>, and a row with an empty or missing
  panchayath id adds nothing to \<^verbatim>\<open>totalPanchayaths\<close>.
\<close>

theorem distinct_counts:
  "totalCategories fr = card (category_id ` set fr)
   \<and> totalPanchayaths fr = card {p \<in> panchayath_id ` set fr. Boolean p}
   \<and> (category_id r \<notin> category_id ` set fr \<longrightarrow>
        totalCategories (fr @ [r]) = totalCategories fr + 1)
   \<and> (\<not> Boolean (panchayath_id r) \<longrightarrow> totalPanchayaths (fr @ [r]) = totalPanchayaths fr)"
proof -
  have c: "totalCategories xs = card (category_id ` set xs)" for xs
    by (simp add: totalCategories_def length_new_Set)
  have p: "totalPanchayaths xs = card {p \<in> panchayath_id ` set xs. Boolean p}" for xs
    by (simp add: totalPanchayaths_def length_filter_new_Set)
  have c1: "totalCategories (fr @ [r]) = totalCategories fr + 1"
    if "category_id r \<notin> category_id ` set fr"
    using that by (simp add: c)
  have p1: "totalPanchayaths (fr @ [r]) = totalPanchayaths fr"
    if "\<not> Boolean (panchayath_id r)"
  proof -
    have "{p \<in> panchayath_id ` set (fr @ [r]). Boolean p}
        = {p \<in> panchayath_id ` set fr. Boolean p}"
      using that by auto
    then show ?thesis by (simp only: p)
  qed
  show ?thesis using c p c1 p1 by blast
qed

text \<open>
  Witness for C3: after a row with category \<open>c\<close> and panchayath \<open>p\<close>, a row whose two
  ids are empty strings makes two categories and leaves one panchayath.
\<close>

theorem distinct_counts_witness:
  "category_id (row ''b'' (Val 10) None (Val []) (Val [])) \<notin>
      category_id ` set [row ''a'' (Val 10) None (Val ''c'') (Val ''p'')]
   \<and> \<not> Boolean (panchayath_id (row ''b'' (Val 10) None (Val []) (Val [])))
   \<and> totalCategories ([row ''a'' (Val 10) None (Val ''c'') (Val ''p'')]
        @ [row ''b'' (Val 10) None (Val []) (Val [])]) = 2
   \<and> totalPanchayaths ([row ''a'' (Val 10) None (Val ''c'') (Val ''p'')]
        @ [row ''b'' (Val 10) None (Val []) (Val [])]) = 1"
proof -
  let ?a = "row ''a'' (Val 10) None (Val ''c'') (Val ''p'')"
  let ?b = "row ''b'' (Val 10) None (Val []) (Val [])"
  note t = distinct_counts [of "[?a]" ?b]
  have h1: "category_id ?b \<notin> category_id ` set [?a]" by (simp add: row_def)
  have h2: "\<not> Boolean (panchayath_id ?b)" by (simp add: row_def)
  have c0: "totalCategories [?a] = 1"
    by (simp add: totalCategories_def new_Set_def Set_add_def)
  have p0: "totalPanchayaths [?a] = 1"
    by (simp add: totalPanchayaths_def new_Set_def Set_add_def row_def)
  from t h1 have "totalCategories ([?a] @ [?b]) = totalCategories [?a] + 1" by blast
  with c0 have c: "totalCategories ([?a] @ [?b]) = 2" by simp
  from t h2 have "totalPanchayaths ([?a] @ [?b]) = totalPanchayaths [?a]" by blast
  with p0 have p: "totalPanchayaths ([?a] @ [?b]) = 1" by simp
  from h1 h2 c p show ?thesis by blast
qed

text \<open>
  C4. \<^verbatim>\<open>totalFeesCollected\<close> is the sum of \<^verbatim>\<open>fee_paid\<close> over the filtered rows, a
  missing fee counting as 0; appending a row whose fee is 0 or missing leaves it
  unchanged.
\<close>

theorem totalFeesCollected_sum:
  "totalFeesCollected fr = (\<Sum>r\<leftarrow>fr. spec_fee (fee_paid r))
   \<and> (fee_paid r \<in> {Val 0, Null, Undefined} \<longrightarrow>
        totalFeesCollected (fr @ [r]) = totalFeesCollected fr)"
proof -
  have s: "totalFeesCollected xs = (\<Sum>r\<leftarrow>xs. spec_fee (fee_paid r))" for xs
    by (simp add: totalFeesCollected_def foldl_fee fee_or_0_eq)
  have "totalFeesCollected (fr @ [r]) = totalFeesCollected fr"
    if "fee_paid r \<in> {Val 0, Null, Undefined}"
    using that by (auto simp: s)
  with s show ?thesis by blast
qed

text \<open>Witness for C4: fees 100 and 200 make 300, also after a row without a fee.\<close>

theorem totalFeesCollected_sum_witness:
  "fee_paid (row ''z'' Null (Some (jan 5)) (Val ''c'') (Val ''p'')) \<in> {Val 0, Null, Undefined}
   \<and> totalFeesCollected [row ''a'' (Val 100) (Some (jan 5)) (Val ''c'') (Val ''p''),
                         row ''b'' (Val 200) (Some (jan 15)) (Val ''c'') (Val ''p'')] = 300
   \<and> totalFeesCollected ([row ''a'' (Val 100) (Some (jan 5)) (Val ''c'') (Val ''p''),
                          row ''b'' (Val 200) (Some (jan 15)) (Val ''c'') (Val ''p'')]
                         @ [row ''z'' Null (Some (jan 5)) (Val ''c'') (Val ''p'')]) = 300"
  using totalFeesCollected_sum [of "[row ''a'' (Val 100) (Some (jan 5)) (Val ''c'') (Val ''p''),
                         row ''b'' (Val 200) (Some (jan 15)) (Val ''c'') (Val ''p'')]"
      "row ''z'' Null (Some (jan 5)) (Val ''c'') (Val ''p'')"]
  by (simp add: row_def)

text \<open>
  C5. Whatever the bounds, a filtered set the filter returns is a subset of the
  approved set, and the filter returns whenever the interval is accepted (always under
  date-fns 3). \<^verbatim>\<open>handleClear\<close> unsets both bounds and keeps the approved set; the filtered
  set is then the full approved set.
\<close>

theorem filtered_subset_and_clear:
  "(filteredRegistrations e f t regs = Inr ys \<longrightarrow> set ys \<subseteq> set regs)
   \<and> (interval_accepted e f t \<longrightarrow>
        (\<exists>zs. filteredRegistrations e f t regs = Inr zs \<and> set zs \<subseteq> set regs))
   \<and> fromDate (handleClear s) = None \<and> toDate (handleClear s) = None
   \<and> registrations (handleClear s) = registrations s
   \<and> filteredRegistrations e (fromDate (handleClear s)) (toDate (handleClear s))
        (registrations (handleClear s)) = Inr (registrations s)"
proof -
  have a: "set ys \<subseteq> set regs" if "filteredRegistrations e f t regs = Inr ys"
    using filteredRegistrations_Inr [OF that] by auto
  have b: "\<exists>zs. filteredRegistrations e f t regs = Inr zs \<and> set zs \<subseteq> set regs"
    if "interval_accepted e f t"
    using filteredRegistrations_returns [OF that, of regs] by auto
  have c: "fromDate (handleClear s) = None" "toDate (handleClear s) = None"
    "registrations (handleClear s) = registrations s"
    by (simp_all add: handleClear_def setFromDate_def setToDate_def)
  show ?thesis using a b c by (simp add: filteredRegistrations_unset)
qed

text \<open>
  Witness for C5: rows approved on 5 and 15 January, bounds 1 to 10 January: the first
  row only; after \<^verbatim>\<open>handleClear\<close>, both rows.
\<close>

theorem filtered_subset_and_clear_witness:
  "filteredRegistrations ist (Some (jan 1)) (Some (jan 10))
       [row ''a'' (Val 100) (Some (jan 5)) (Val ''c'') (Val ''p''),
        row ''b'' (Val 200) (Some (jan 15)) (Val ''c'') (Val ''p'')]
     = Inr [row ''a'' (Val 100) (Some (jan 5)) (Val ''c'') (Val ''p'')]
   \<and> interval_accepted ist (Some (jan 1)) (Some (jan 10))
   \<and> set [row ''a'' (Val 100) (Some (jan 5)) (Val ''c'') (Val ''p'')]
       \<subseteq> set [row ''a'' (Val 100) (Some (jan 5)) (Val ''c'') (Val ''p''),
              row ''b'' (Val 200) (Some (jan 15)) (Val ''c'') (Val ''p'')]
   \<and> filteredRegistrations ist
        (fromDate (handleClear (screen_state (Some (jan 1)) (Some (jan 10))
           [row ''a'' (Val 100) (Some (jan 5)) (Val ''c'') (Val ''p''),
            row ''b'' (Val 200) (Some (jan 15)) (Val ''c'') (Val ''p'')] [])))
        (toDate (handleClear (screen_state (Some (jan 1)) (Some (jan 10))
           [row ''a'' (Val 100) (Some (jan 5)) (Val ''c'') (Val ''p''),
            row ''b'' (Val 200) (Some (jan 15)) (Val ''c'') (Val ''p'')] [])))
        (registrations (handleClear (screen_state (Some (jan 1)) (Some (jan 10))
           [row ''a'' (Val 100) (Some (jan 5)) (Val ''c'') (Val ''p''),
            row ''b'' (Val 200) (Some (jan 15)) (Val ''c'') (Val ''p'')] [])))
     = Inr [row ''a'' (Val 100) (Some (jan 5)) (Val ''c'') (Val ''p''),
            row ''b'' (Val 200) (Some (jan 15)) (Val ''c'') (Val ''p'')]"
proof -
  let ?a = "row ''a'' (Val 100) (Some (jan 5)) (Val ''c'') (Val ''p'')"
  let ?b = "row ''b'' (Val 200) (Some (jan 15)) (Val ''c'') (Val ''p'')"
  let ?s = "screen_state (Some (jan 1)) (Some (jan 10)) [?a, ?b] []"
  note t = filtered_subset_and_clear [of ist "Some (jan 1)" "Some (jan 10)" "[?a, ?b]" "[?a]" ?s]
  have h1: "filteredRegistrations ist (Some (jan 1)) (Some (jan 10)) [?a, ?b] = Inr [?a]"
    by (simp add: filteredRegistrations_def inDateRange_def ist_def jan_def row_def
          msPerDay_def TimeClip_def js_ge_def)
  have h2: "interval_accepted ist (Some (jan 1)) (Some (jan 10))"
    by (simp add: interval_accepted_def ist_def)
  from t h1 have sub: "set [?a] \<subseteq> set [?a, ?b]" by blast
  have r: "registrations ?s = [?a, ?b]" by (simp add: screen_state_def)
  from t have "filteredRegistrations ist (fromDate (handleClear ?s)) (toDate (handleClear ?s))
        (registrations (handleClear ?s)) = Inr (registrations ?s)" by blast
  with r have clr: "filteredRegistrations ist (fromDate (handleClear ?s)) (toDate (handleClear ?s))
        (registrations (handleClear ?s)) = Inr [?a, ?b]" by simp
  from h1 h2 sub clr show ?thesis by blast
qed

text \<open>
  C6. \<^verbatim>\<open>pendingAmount\<close> is the sum of \<^verbatim>\<open>fee_paid\<close> over the whole pending set, a missing
  fee counting as 0, and it does not depend on the bounds: whatever \<open>from\<close> and \<open>to\<close> are
  set to, the figures that are computed carry the pending amount of the pending set,
  and they are computed whenever the interval is accepted.
\<close>

theorem pendingAmount_unfiltered:
  "pendingAmount ps = (\<Sum>r\<leftarrow>ps. spec_fee (fee_paid r))
   \<and> (ReportsTab_metrics e (setToDate t (setFromDate f s)) = (Inr m, s') \<longrightarrow>
        m_pendingAmount m = pendingAmount (pendingRegistrations s))
   \<and> (interval_accepted e f t \<longrightarrow>
        (\<exists>m'. ReportsTab_metrics e (setToDate t (setFromDate f s))
                    = (Inr m', setToDate t (setFromDate f s))
                \<and> m_pendingAmount m' = pendingAmount (pendingRegistrations s)))"
proof -
  let ?s = "setToDate t (setFromDate f s)"
  have fields: "fromDate ?s = f" "toDate ?s = t"
    "pendingRegistrations ?s = pendingRegistrations s"
    by (simp_all add: setToDate_def setFromDate_def)
  have a: "pendingAmount ps = (\<Sum>r\<leftarrow>ps. spec_fee (fee_paid r))"
    by (simp add: pendingAmount_def foldl_fee fee_or_0_eq)
  have b: "m_pendingAmount m = pendingAmount (pendingRegistrations s)"
    if "ReportsTab_metrics e ?s = (Inr m, s')"
    using ReportsTab_metrics_Inr [OF that] fields by simp
  have c: "\<exists>m'. ReportsTab_metrics e ?s = (Inr m', ?s)
                \<and> m_pendingAmount m' = pendingAmount (pendingRegistrations s)"
    if "interval_accepted e f t"
  proof -
    from that have "interval_accepted e (fromDate ?s) (toDate ?s)"
      by (simp add: fields)
    then obtain m' where r: "ReportsTab_metrics e ?s = (Inr m', ?s)"
      using ReportsTab_metrics_returns by blast
    from ReportsTab_metrics_Inr [OF r] fields
    have "m_pendingAmount m' = pendingAmount (pendingRegistrations s)" by simp
    with r show ?thesis by blast
  qed
  show ?thesis using a b c by blast
qed

text \<open>
  Witness for C6: pending fees 50 and 75 make 125, also in the figures computed after
  the bounds were set to 10 January and 5 January.
\<close>

theorem pendingAmount_unfiltered_witness:
  "interval_accepted ist (Some (jan 10)) (Some (jan 5))
   \<and> pendingAmount [row ''p1'' (Val 50) None (Val ''c'') Null,
                     row ''p2'' (Val 75) None (Val ''c'') Null] = 125
   \<and> (\<exists>m'. ReportsTab_metrics ist (setToDate (Some (jan 5)) (setFromDate (Some (jan 10))
          (screen_state None None
            [row ''a'' (Val 100) (Some (jan 7)) (Val ''c'') (Val ''p'')]
            [row ''p1'' (Val 50) None (Val ''c'') Null, row ''p2'' (Val 75) None (Val ''c'') Null])))
        = (Inr m', setToDate (Some (jan 5)) (setFromDate (Some (jan 10))
          (screen_state None None
            [row ''a'' (Val 100) (Some (jan 7)) (Val ''c'') (Val ''p'')]
            [row ''p1'' (Val 50) None (Val ''c'') Null, row ''p2'' (Val 75) None (Val ''c'') Null])))
        \<and> m_pendingAmount m' = 125)"
proof -
  let ?ps = "[row ''p1'' (Val 50) None (Val ''c'') Null, row ''p2'' (Val 75) None (Val ''c'') Null]"
  let ?s = "screen_state None None [row ''a'' (Val 100) (Some (jan 7)) (Val ''c'') (Val ''p'')] ?ps"
  note t = pendingAmount_unfiltered [of ?ps ist "Some (jan 5)" "Some (jan 10)" ?s]
  have h1: "interval_accepted ist (Some (jan 10)) (Some (jan 5))"
    by (simp add: interval_accepted_def ist_def)
  from t have "pendingAmount ?ps = (\<Sum>r\<leftarrow>?ps. spec_fee (fee_paid r))" by blast
  then have v: "pendingAmount ?ps = 125" by (simp add: row_def)
  have ps: "pendingRegistrations ?s = ?ps" by (simp add: screen_state_def)
  from t h1 have "\<exists>m'. ReportsTab_metrics ist (setToDate (Some (jan 5)) (setFromDate (Some (jan 10)) ?s))
        = (Inr m', setToDate (Some (jan 5)) (setFromDate (Some (jan 10)) ?s))
        \<and> m_pendingAmount m' = pendingAmount (pendingRegistrations ?s)" by blast
  with ps v have "\<exists>m'. ReportsTab_metrics ist (setToDate (Some (jan 5)) (setFromDate (Some (jan 10)) ?s))
        = (Inr m', setToDate (Some (jan 5)) (setFromDate (Some (jan 10)) ?s))
        \<and> m_pendingAmount m' = 125" by simp
  with h1 v show ?thesis by blast
qed

text \<open>
  C7. The performance grade is "Excellent" above 50 filtered rows, "Good" above 20 and
  up to 50, "Fair" otherwise; the \<^verbatim>\<open>totalRegistrations\<close> it is computed from is the number
  of filtered rows.
\<close>

theorem performance_grade:
  "(n > 50 \<longrightarrow> performance n = ''Excellent'')
   \<and> (20 < n \<and> n \<le> 50 \<longrightarrow> performance n = ''Good'')
   \<and> (n \<le> 20 \<longrightarrow> performance n = ''Fair'')
   \<and> totalRegistrations filtered = length filtered
   \<and> (ReportsTab_metrics e s = (Inr m, s') \<longrightarrow> m_totalRegistrations m = length (m_rows m))"
proof -
  have "m_totalRegistrations m = length (m_rows m)"
    if "ReportsTab_metrics e s = (Inr m, s')"
    using ReportsTab_metrics_Inr [OF that] by auto
  then show ?thesis by (simp add: performance_def totalRegistrations_def)
qed

text \<open>
  Witness for C7: 55 and 51 rows are "Excellent", 30 and 50 "Good", 20, 10 and 0
  "Fair"; an empty approved set gives 0 rows.
\<close>

theorem performance_grade_witness:
  "(55::nat) > 50 \<and> performance 55 = ''Excellent''
   \<and> (20::nat) < 30 \<and> (30::nat) \<le> 50 \<and> performance 30 = ''Good''
   \<and> (10::nat) \<le> 20 \<and> performance 10 = ''Fair''
   \<and> (0::nat) \<le> 20 \<and> performance 0 = ''Fair''
   \<and> (51::nat) > 50 \<and> performance 51 = ''Excellent''
   \<and> (20::nat) < 50 \<and> (50::nat) \<le> 50 \<and> performance 50 = ''Good''
   \<and> (20::nat) \<le> 20 \<and> performance 20 = ''Fair''
   \<and> ReportsTab_metrics ist (screen_state None None [] [])
       = (Inr \<lparr> m_rows = [], m_totalRegistrations = 0, m_totalFeesCollected = 0,
                 m_totalCategories = 0, m_totalPanchayaths = 0, m_pendingAmount = 0 \<rparr>,
          screen_state None None [] [])
   \<and> performance (totalRegistrations []) = ''Fair''"
proof -
  have "performance 55 = ''Excellent''"
    using performance_grade [of 55] by simp
  moreover have "performance 30 = ''Good''"
    using performance_grade [of 30] by simp
  moreover have "performance 10 = ''Fair''"
    using performance_grade [of 10] by simp
  moreover have z: "performance 0 = ''Fair''"
    using performance_grade [of 0] by simp
  moreover have "performance 51 = ''Excellent''"
    using performance_grade [of 51] by simp
  moreover have "performance 50 = ''Good''"
    using performance_grade [of 50] by simp
  moreover have "performance 20 = ''Fair''"
    using performance_grade [of 20] by simp
  moreover have "ReportsTab_metrics ist (screen_state None None [] [])
       = (Inr \<lparr> m_rows = [], m_totalRegistrations = 0, m_totalFeesCollected = 0,
                 m_totalCategories = 0, m_totalPanchayaths = 0, m_pendingAmount = 0 \<rparr>,
          screen_state None None [] [])"
    by (simp add: ReportsTab_metrics_def screen_state_def filteredRegistrations_def
          totalRegistrations_def totalFeesCollected_def totalCategories_def
          totalPanchayaths_def pendingAmount_def new_Set_def)
  moreover have "performance (totalRegistrations []) = ''Fair''"
    using performance_grade [of 0 "[]"] z by simp
  ultimately show ?thesis by simp
qed

text \<open>
  C8. A registration with no \<^verbatim>\<open>approved_at\<close> is excluded from the filtered set whenever
  at least one bound is set and included when both are unset: the callback answers
  \<open>from = None \<and> to = None\<close> for it, without a date comparison and without an exception.
\<close>

theorem missing_approved_at:
  assumes "approved_at r = None"
  shows "inDateRange e f t r = Inr (f = None \<and> t = None)
   \<and> (filteredRegistrations e f t regs = Inr ys \<longrightarrow>
        (r \<in> set ys \<longleftrightarrow> r \<in> set regs \<and> f = None \<and> t = None))
   \<and> (interval_accepted e f t \<longrightarrow>
        (\<exists>zs. filteredRegistrations e f t regs = Inr zs
            \<and> (r \<in> set zs \<longleftrightarrow> r \<in> set regs \<and> f = None \<and> t = None)))"
proof -
  note p = inDateRange_no_approved_at [OF assms, of e f t]
  have a: "r \<in> set ys \<longleftrightarrow> r \<in> set regs \<and> f = None \<and> t = None"
    if "filteredRegistrations e f t regs = Inr ys"
    using filteredRegistrations_Inr [OF that] p by auto
  have b: "\<exists>zs. filteredRegistrations e f t regs = Inr zs
            \<and> (r \<in> set zs \<longleftrightarrow> r \<in> set regs \<and> f = None \<and> t = None)"
    if "interval_accepted e f t"
    using filteredRegistrations_returns [OF that, of regs] p by auto
  show ?thesis using p a b by blast
qed

text \<open>
  Witness for C8: a row without \<^verbatim>\<open>approved_at\<close> is dropped with only \<open>from\<close> set and with
  only \<open>to\<close> set, and kept with no bound.
\<close>

theorem missing_approved_at_witness:
  "approved_at (row ''n'' (Val 100) None (Val ''c'') (Val ''p'')) = None
   \<and> interval_accepted ist (Some (jan 1)) None
   \<and> inDateRange ist (Some (jan 1)) None (row ''n'' (Val 100) None (Val ''c'') (Val ''p'')) = Inr False
   \<and> inDateRange ist None (Some (jan 1)) (row ''n'' (Val 100) None (Val ''c'') (Val ''p'')) = Inr False
   \<and> inDateRange ist None None (row ''n'' (Val 100) None (Val ''c'') (Val ''p'')) = Inr True
   \<and> (\<exists>zs. filteredRegistrations ist (Some (jan 1)) None
              [row ''n'' (Val 100) None (Val ''c'') (Val ''p'')] = Inr zs
          \<and> row ''n'' (Val 100) None (Val ''c'') (Val ''p'') \<notin> set zs)
   \<and> (\<exists>zs. filteredRegistrations ist None None
              [row ''n'' (Val 100) None (Val ''c'') (Val ''p'')] = Inr zs
          \<and> row ''n'' (Val 100) None (Val ''c'') (Val ''p'') \<in> set zs)"
proof -
  let ?r = "row ''n'' (Val 100) None (Val ''c'') (Val ''p'')"
  have h: "approved_at ?r = None" by (simp add: row_def)
  have i: "interval_accepted ist (Some (jan 1)) None"
    by (simp add: interval_accepted_def)
  have j: "interval_accepted ist None None"
    by (simp add: interval_accepted_def)
  have a: "inDateRange ist (Some (jan 1)) None ?r = Inr False"
    using missing_approved_at [OF h, of ist "Some (jan 1)" None] by simp
  have b: "inDateRange ist None (Some (jan 1)) ?r = Inr False"
    using missing_approved_at [OF h, of ist None "Some (jan 1)"] by simp
  have c: "inDateRange ist None None ?r = Inr True"
    using missing_approved_at [OF h, of ist None None] by simp
  have d: "\<exists>zs. filteredRegistrations ist (Some (jan 1)) None [?r] = Inr zs \<and> ?r \<notin> set zs"
    using missing_approved_at [OF h, of ist "Some (jan 1)" None "[?r]"] i by auto
  have d': "\<exists>zs. filteredRegistrations ist None None [?r] = Inr zs \<and> ?r \<in> set zs"
    using missing_approved_at [OF h, of ist None None "[?r]"] j by auto
  from h i a b c d d' show ?thesis by blast
qed

text \<open>
  C9. Either export handler, whatever the filtered set it closed over (the empty one
  included), returns with the state as it was, so with the approved set, the pending set
  and the bounds unchanged, and shows its success toast and no error toast.
\<close>

theorem export_handlers_notify:
  "fst (handleExportExcel filtered s) = s
   \<and> ToastSuccess ''Export Excel functionality to be implemented''
       \<in> set (snd (handleExportExcel filtered s))
   \<and> ToastError msg \<notin> set (snd (handleExportExcel filtered s))
   \<and> fst (handleExportPDF filtered s) = s
   \<and> ToastSuccess ''Export PDF functionality to be implemented''
       \<in> set (snd (handleExportPDF filtered s))
   \<and> ToastError msg \<notin> set (snd (handleExportPDF filtered s))"
  by (simp add: handleExportExcel_def handleExportPDF_def)

text \<open>
  C10. A filtered set the filter returns is a subsequence of the approved set, in the
  same order; so whatever order relation holds along the approved set (the loader's
  descending approval time, for one) holds along the filtered set. The filter returns
  whenever the interval is accepted.
\<close>

theorem filtered_keeps_order:
  "(filteredRegistrations e f t regs = Inr ys \<longrightarrow>
        subseq ys regs \<and> (sorted_wrt R regs \<longrightarrow> sorted_wrt R ys))
   \<and> (interval_accepted e f t \<longrightarrow>
        (\<exists>zs. filteredRegistrations e f t regs = Inr zs \<and> subseq zs regs
            \<and> (sorted_wrt R regs \<longrightarrow> sorted_wrt R zs)))"
proof -
  have a: "subseq ys regs \<and> (sorted_wrt R regs \<longrightarrow> sorted_wrt R ys)"
    if "filteredRegistrations e f t regs = Inr ys"
    using filteredRegistrations_Inr [OF that] by (simp add: sorted_wrt_filter_keeps)
  have b: "\<exists>zs. filteredRegistrations e f t regs = Inr zs \<and> subseq zs regs
            \<and> (sorted_wrt R regs \<longrightarrow> sorted_wrt R zs)"
    if "interval_accepted e f t"
    using filteredRegistrations_returns [OF that, of regs] by (simp add: sorted_wrt_filter_keeps)
  show ?thesis using a b by blast
qed

text \<open>
  Witness for C10: rows approved on 15, 7 and 5 January, newest first, with bounds 6 to
  31 January: the rows of the 15th and the 7th remain, newest first.
\<close>

theorem filtered_keeps_order_witness:
  "interval_accepted ist (Some (jan 6)) (Some (jan 31))
   \<and> sorted_wrt approved_desc
        [row ''x'' (Val 1) (Some (jan 15)) (Val ''c'') (Val ''p''),
         row ''y'' (Val 2) (Some (jan 7)) (Val ''c'') (Val ''p''),
         row ''z'' (Val 3) (Some (jan 5)) (Val ''c'') (Val ''p'')]
   \<and> filteredRegistrations ist (Some (jan 6)) (Some (jan 31))
        [row ''x'' (Val 1) (Some (jan 15)) (Val ''c'') (Val ''p''),
         row ''y'' (Val 2) (Some (jan 7)) (Val ''c'') (Val ''p''),
         row ''z'' (Val 3) (Some (jan 5)) (Val ''c'') (Val ''p'')]
      = Inr [row ''x'' (Val 1) (Some (jan 15)) (Val ''c'') (Val ''p''),
             row ''y'' (Val 2) (Some (jan 7)) (Val ''c'') (Val ''p'')]
   \<and> subseq [row ''x'' (Val 1) (Some (jan 15)) (Val ''c'') (Val ''p''),
             row ''y'' (Val 2) (Some (jan 7)) (Val ''c'') (Val ''p'')]
        [row ''x'' (Val 1) (Some (jan 15)) (Val ''c'') (Val ''p''),
         row ''y'' (Val 2) (Some (jan 7)) (Val ''c'') (Val ''p''),
         row ''z'' (Val 3) (Some (jan 5)) (Val ''c'') (Val ''p'')]
   \<and> sorted_wrt approved_desc
        [row ''x'' (Val 1) (Some (jan 15)) (Val ''c'') (Val ''p''),
         row ''y'' (Val 2) (Some (jan 7)) (Val ''c'') (Val ''p'')]"
proof -
  let ?x = "row ''x'' (Val 1) (Some (jan 15)) (Val ''c'') (Val ''p'')"
  let ?y = "row ''y'' (Val 2) (Some (jan 7)) (Val ''c'') (Val ''p'')"
  let ?z = "row ''z'' (Val 3) (Some (jan 5)) (Val ''c'') (Val ''p'')"
  note t = filtered_keeps_order [of ist "Some (jan 6)" "Some (jan 31)" "[?x, ?y, ?z]" "[?x, ?y]"
      approved_desc]
  have h1: "interval_accepted ist (Some (jan 6)) (Some (jan 31))"
    by (simp add: interval_accepted_def ist_def)
  have h2: "sorted_wrt approved_desc [?x, ?y, ?z]"
    by (simp add: approved_desc_def row_def jan_def js_ge_def)
  have h3: "filteredRegistrations ist (Some (jan 6)) (Some (jan 31)) [?x, ?y, ?z] = Inr [?x, ?y]"
    by (simp add: filteredRegistrations_def inDateRange_def ist_def jan_def row_def
          msPerDay_def TimeClip_def js_ge_def)
  from t h3 h2 have "subseq [?x, ?y] [?x, ?y, ?z] \<and> sorted_wrt approved_desc [?x, ?y]"
    by blast
  with h1 h2 h3 show ?thesis by blast
qed

end
